theory Spec2Isabelle
  imports Main
begin

unbundle bit_operations_syntax

section \<open>Keybindings (src/main/attach-titlebar-to-window.ts, second part)\<close>

subsection \<open>Data model\<close>

text \<open>
  Modelled from the spec: the enum \<open>OperatingSystem\<close> is imported from
  \<open>vs/base/common/platform\<close>, which is not among the sources. The spec
  distinguishes a Macintosh-style OS from all other OS families; the code only
  ever compares with the member \<open>Macintosh\<close>.
\<close>

datatype OperatingSystem = Windows | Macintosh | Linux

text \<open>
  \<open>const enum BinaryKeybindingsMask\<close>: \<open>(1 << n) >>> 0\<close> is the number
  \<open>2 ^ n\<close> for \<open>n < 31\<close>.
\<close>

definition BinaryKeybindingsMask_CtrlCmd :: int where
  "BinaryKeybindingsMask_CtrlCmd = push_bit 11 1"

definition BinaryKeybindingsMask_Shift :: int where
  "BinaryKeybindingsMask_Shift = push_bit 10 1"

definition BinaryKeybindingsMask_Alt :: int where
  "BinaryKeybindingsMask_Alt = push_bit 9 1"

definition BinaryKeybindingsMask_WinCtrl :: int where
  "BinaryKeybindingsMask_WinCtrl = push_bit 8 1"

definition BinaryKeybindingsMask_KeyCode :: int where
  "BinaryKeybindingsMask_KeyCode = 255"

text \<open>
  \<open>interface Modifiers\<close> and the two classes implementing it. \<open>KeyCode\<close> and
  \<open>ScanCode\<close> are numeric enums; a key code or a scan code is an integer.
\<close>

record Modifiers =
  ctrlKey :: bool
  shiftKey :: bool
  altKey :: bool
  metaKey :: bool

record SimpleKeybinding = Modifiers +
  keyCode :: int

record ScanCodeBinding = Modifiers +
  scanCode :: int

text \<open>
  The members of the enums \<open>KeyCode\<close> and \<open>ScanCode\<close> of
  \<open>vs/base/common/keyCodes\<close> (not among the sources) that the code and its
  specification name. Their numeric values are parameters of the model.
\<close>

record KeyCode_enum =
  KeyCode_Unknown :: int
  KeyCode_Ctrl :: int
  KeyCode_Meta :: int
  KeyCode_Alt :: int
  KeyCode_Shift :: int
  KeyCode_KeyA :: int

record ScanCode_enum =
  ScanCode_ControlLeft :: int
  ScanCode_ControlRight :: int
  ScanCode_ShiftLeft :: int
  ScanCode_ShiftRight :: int
  ScanCode_AltLeft :: int
  ScanCode_AltRight :: int
  ScanCode_MetaLeft :: int
  ScanCode_MetaRight :: int

subsection \<open>createSimpleKeybinding\<close>

text \<open>
  \<open>keybinding & mask\<close> on an integer-valued number: the masks lie below bit 31, so
  the result is the bitwise conjunction of the two's complement representations,
  which is \<open>AND\<close> on \<open>int\<close>. \<open>x ? true : false\<close> on a number is \<open>x \<noteq> 0\<close>.
\<close>

definition createSimpleKeybinding :: "int \<Rightarrow> OperatingSystem \<Rightarrow> SimpleKeybinding" where
  "createSimpleKeybinding keybinding OS =
     (let ctrlCmd = (keybinding AND BinaryKeybindingsMask_CtrlCmd \<noteq> 0);
          winCtrl = (keybinding AND BinaryKeybindingsMask_WinCtrl \<noteq> 0);
          ctrlKey' = (if OS = Macintosh then winCtrl else ctrlCmd);
          shiftKey' = (keybinding AND BinaryKeybindingsMask_Shift \<noteq> 0);
          altKey' = (keybinding AND BinaryKeybindingsMask_Alt \<noteq> 0);
          metaKey' = (if OS = Macintosh then ctrlCmd else winCtrl);
          keyCode' = keybinding AND BinaryKeybindingsMask_KeyCode
      in \<lparr>ctrlKey = ctrlKey', shiftKey = shiftKey', altKey = altKey',
          metaKey = metaKey', keyCode = keyCode'\<rparr>)"

subsection \<open>SimpleKeybinding and ScanCodeBinding methods\<close>

definition SimpleKeybinding_equals :: "SimpleKeybinding \<Rightarrow> SimpleKeybinding \<Rightarrow> bool" where
  "SimpleKeybinding_equals this other =
     (ctrlKey this = ctrlKey other
      \<and> shiftKey this = shiftKey other
      \<and> altKey this = altKey other
      \<and> metaKey this = metaKey other
      \<and> keyCode this = keyCode other)"

text \<open>
  The template literal converts \<open>this.keyCode\<close> with Number's \<open>toString\<close>: for an
  integer of magnitude below \<open>10^21\<close> that is its decimal notation, with a leading
  minus sign for a negative number.
\<close>

definition digit_char :: "nat \<Rightarrow> char" where
  "digit_char d = ''0123456789'' ! (d mod 10)"

fun nat_toString :: "nat \<Rightarrow> string" where
  "nat_toString n =
     (if n < 10 then [digit_char n] else nat_toString (n div 10) @ [digit_char (n mod 10)])"

declare nat_toString.simps [simp del]

definition Number_toString :: "int \<Rightarrow> string" where
  "Number_toString i = (if i < 0 then CHR ''-'' # nat_toString (nat (- i)) else nat_toString (nat i))"

definition SimpleKeybinding_getHashCode :: "SimpleKeybinding \<Rightarrow> string" where
  "SimpleKeybinding_getHashCode this =
     (let ctrl = (if ctrlKey this then ''1'' else ''0'');
          shift = (if shiftKey this then ''1'' else ''0'');
          alt = (if altKey this then ''1'' else ''0'');
          meta = (if metaKey this then ''1'' else ''0'')
      in ctrl @ shift @ alt @ meta @ Number_toString (keyCode this))"

definition SimpleKeybinding_isModifierKey :: "KeyCode_enum \<Rightarrow> SimpleKeybinding \<Rightarrow> bool" where
  "SimpleKeybinding_isModifierKey K this =
     (keyCode this = KeyCode_Unknown K
      \<or> keyCode this = KeyCode_Ctrl K
      \<or> keyCode this = KeyCode_Meta K
      \<or> keyCode this = KeyCode_Alt K
      \<or> keyCode this = KeyCode_Shift K)"

definition SimpleKeybinding_isDuplicateModifierCase :: "KeyCode_enum \<Rightarrow> SimpleKeybinding \<Rightarrow> bool" where
  "SimpleKeybinding_isDuplicateModifierCase K this =
     ((ctrlKey this \<and> keyCode this = KeyCode_Ctrl K)
      \<or> (shiftKey this \<and> keyCode this = KeyCode_Shift K)
      \<or> (altKey this \<and> keyCode this = KeyCode_Alt K)
      \<or> (metaKey this \<and> keyCode this = KeyCode_Meta K))"

definition ScanCodeBinding_equals :: "ScanCodeBinding \<Rightarrow> ScanCodeBinding \<Rightarrow> bool" where
  "ScanCodeBinding_equals this other =
     (ctrlKey this = ctrlKey other
      \<and> shiftKey this = shiftKey other
      \<and> altKey this = altKey other
      \<and> metaKey this = metaKey other
      \<and> scanCode this = scanCode other)"

definition ScanCodeBinding_isDuplicateModifierCase :: "ScanCode_enum \<Rightarrow> ScanCodeBinding \<Rightarrow> bool" where
  "ScanCodeBinding_isDuplicateModifierCase S this =
     ((ctrlKey this \<and> (scanCode this = ScanCode_ControlLeft S \<or> scanCode this = ScanCode_ControlRight S))
      \<or> (shiftKey this \<and> (scanCode this = ScanCode_ShiftLeft S \<or> scanCode this = ScanCode_ShiftRight S))
      \<or> (altKey this \<and> (scanCode this = ScanCode_AltLeft S \<or> scanCode this = ScanCode_AltRight S))
      \<or> (metaKey this \<and> (scanCode this = ScanCode_MetaLeft S \<or> scanCode this = ScanCode_MetaRight S)))"

text \<open>
  \<open>type KeybindingModifier = 'ctrl' | 'shift' | 'alt' | 'meta'\<close>, the flag of a
  binding that stands for a modifier, and the key codes and scan codes that name it.
\<close>

datatype KeybindingModifier = ctrl | shift | alt | meta

fun modifier_flag :: "KeybindingModifier \<Rightarrow> 'a Modifiers_scheme \<Rightarrow> bool" where
  "modifier_flag ctrl b = ctrlKey b"
| "modifier_flag shift b = shiftKey b"
| "modifier_flag alt b = altKey b"
| "modifier_flag meta b = metaKey b"

fun modifier_keyCode :: "KeyCode_enum \<Rightarrow> KeybindingModifier \<Rightarrow> int" where
  "modifier_keyCode K ctrl = KeyCode_Ctrl K"
| "modifier_keyCode K shift = KeyCode_Shift K"
| "modifier_keyCode K alt = KeyCode_Alt K"
| "modifier_keyCode K meta = KeyCode_Meta K"

fun modifier_scanCodes :: "ScanCode_enum \<Rightarrow> KeybindingModifier \<Rightarrow> int list" where
  "modifier_scanCodes S ctrl = [ScanCode_ControlLeft S, ScanCode_ControlRight S]"
| "modifier_scanCodes S shift = [ScanCode_ShiftLeft S, ScanCode_ShiftRight S]"
| "modifier_scanCodes S alt = [ScanCode_AltLeft S, ScanCode_AltRight S]"
| "modifier_scanCodes S meta = [ScanCode_MetaLeft S, ScanCode_MetaRight S]"

section \<open>Host-side relay (src/main/attach-titlebar-to-window.ts, first part)\<close>

text \<open>
  The browser window, as far as the relay touches it: the minimum size that
  \<open>getMinimumSize\<close> returns (a \<open>number[]\<close>) and \<open>setMinimumSize\<close> replaces, the
  listeners registered with \<open>on\<close>, and the messages sent on \<open>webContents\<close>. Every
  handler the relay registers only sends one message, so a listener is the event
  name with the channel and payload it sends.
\<close>

type_synonym channel_message = "string \<times> bool"

record BrowserWindow =
  minimumSize :: "int list"
  listeners :: "(string \<times> channel_message) list"
  sent :: "channel_message list"

definition getMinimumSize :: "BrowserWindow \<Rightarrow> int list" where
  "getMinimumSize browserWindow = minimumSize browserWindow"

definition setMinimumSize :: "int \<Rightarrow> int \<Rightarrow> BrowserWindow \<Rightarrow> BrowserWindow" where
  "setMinimumSize width height browserWindow = browserWindow\<lparr>minimumSize := [width, height]\<rparr>"

definition on :: "string \<Rightarrow> channel_message \<Rightarrow> BrowserWindow \<Rightarrow> BrowserWindow" where
  "on event handler browserWindow =
     browserWindow\<lparr>listeners := listeners browserWindow @ [(event, handler)]\<rparr>"

text \<open>Emitting an event runs the listeners registered for it, in registration order.\<close>

definition emit :: "string \<Rightarrow> BrowserWindow \<Rightarrow> BrowserWindow" where
  "emit event browserWindow =
     browserWindow\<lparr>sent := sent browserWindow
        @ map snd (filter (\<lambda>l. fst l = event) (listeners browserWindow))\<rparr>"

text \<open>
  \<open>sizes[1]\<close> as a condition: \<open>undefined\<close> (index out of range) and \<open>0\<close> are falsy.
\<close>

definition sizes_1_truthy :: "int list \<Rightarrow> bool" where
  "sizes_1_truthy sizes = (1 < length sizes \<and> sizes ! 1 \<noteq> 0)"

text \<open>
  The loop \<open>sizes.forEach(size => { if (sizes[1]) height = size; })\<close>, guarded by
  \<open>sizes && sizes.length >= 1\<close>, starting from \<open>height = 270\<close>.
\<close>

definition attach_height :: "int list \<Rightarrow> int" where
  "attach_height sizes =
     (if length sizes \<ge> 1
      then fold (\<lambda>size height. if sizes_1_truthy sizes then size else height) sizes 270
      else 270)"

definition attach :: "BrowserWindow \<Rightarrow> BrowserWindow" where
  "attach browserWindow =
     (let sizes = getMinimumSize browserWindow;
          height = attach_height sizes
      in (on ''blur'' (''window-focus'', False)
         (on ''focus'' (''window-focus'', True)
         (on ''leave-full-screen'' (''window-fullscreen'', False)
         (on ''enter-full-screen'' (''window-fullscreen'', True)
         (setMinimumSize 400 height browserWindow))))))"

section \<open>Menu labels and the menu action tree (src/titlebar.ts)\<close>

subsection \<open>String.prototype.replace with a global regular expression\<close>

text \<open>
  A regular expression is modelled by its matcher: given the rest of the input at
  the current position, the length of the match starting there (the alternatives
  tried in the pattern's order), or \<open>None\<close>. \<open>replace\<close> with the \<open>g\<close> flag scans from
  left to right; a match is replaced by the replacement function's result and the
  scan continues behind it, an unmatched character is copied. Labels are strings of
  8-bit characters; \<open>\w\<close> is \<open>[A-Za-z0-9_]\<close>.
\<close>

function String_replace_g :: "(string \<Rightarrow> nat option) \<Rightarrow> (string \<Rightarrow> string) \<Rightarrow> string \<Rightarrow> string" where
  "String_replace_g re f [] = (case re [] of None \<Rightarrow> [] | Some n \<Rightarrow> f [])"
| "String_replace_g re f (c # cs) =
     (case re (c # cs) of
        None \<Rightarrow> c # String_replace_g re f cs
      | Some 0 \<Rightarrow> f [] @ c # String_replace_g re f cs
      | Some (Suc n) \<Rightarrow> f (take (Suc n) (c # cs)) @ String_replace_g re f (drop n cs))"
  by pat_completeness auto
termination
  by (relation "measure (\<lambda>(re, f, s). length s)") auto

declare String_replace_g.simps [simp del]

definition is_word_char :: "char \<Rightarrow> bool" where
  "is_word_char c =
     (let n = (of_char c :: nat)
      in (48 \<le> n \<and> n \<le> 57) \<or> (65 \<le> n \<and> n \<le> 90) \<or> n = 95 \<or> (97 \<le> n \<and> n \<le> 122))"

text \<open>The pattern \<open>/\(&&\w\)|&&/\<close>.\<close>

definition re_group_or_amp_amp :: "string \<Rightarrow> nat option" where
  "re_group_or_amp_amp s =
     (if 5 \<le> length s \<and> take 3 s = ''(&&'' \<and> is_word_char (s ! 3) \<and> s ! 4 = CHR '')'' then Some 5
      else if take 2 s = ''&&'' then Some 2
      else None)"

text \<open>The pattern \<open>/&/\<close>.\<close>

definition re_amp :: "string \<Rightarrow> nat option" where
  "re_amp s = (if take 1 s = ''&'' then Some 1 else None)"

text \<open>The pattern \<open>/&&|&/\<close>.\<close>

definition re_amp_amp_or_amp :: "string \<Rightarrow> nat option" where
  "re_amp_amp_or_amp s =
     (if take 2 s = ''&&'' then Some 2
      else if take 1 s = ''&'' then Some 1
      else None)"

subsection \<open>mnemonicMenuLabel\<close>

text \<open>
  The module-level constant \<open>isMacintosh\<close> is the first parameter; the optional
  \<open>forceDisableMnemonics\<close> is \<open>False\<close> when the caller leaves it out.
\<close>

definition mnemonicMenuLabel :: "bool \<Rightarrow> string \<Rightarrow> bool \<Rightarrow> string" where
  "mnemonicMenuLabel isMacintosh label forceDisableMnemonics =
     (if isMacintosh \<or> forceDisableMnemonics
      then String_replace_g re_amp (\<lambda>m. if isMacintosh then ''&'' else ''&&'')
             (String_replace_g re_group_or_amp_amp (\<lambda>m. '''') label)
      else String_replace_g re_amp_amp_or_amp (\<lambda>m. if m = ''&'' then ''&&'' else ''&'') label)"

subsection \<open>The menu description and the actions built from it\<close>

text \<open>
  Electron's \<open>Menu\<close> and \<open>MenuItem\<close>, with the fields \<open>updateMenu\<close> reads. A click
  handler is a function; the model keeps a reference to it. \<open>submenu\<close> is \<open>None\<close> when
  the item has none (\<open>undefined\<close>, falsy).
\<close>

type_synonym handler = nat

datatype MenuItem =
  MenuItem (MenuItem_id: string) (MenuItem_label: string) (MenuItem_enabled: bool)
    (MenuItem_checked: bool) (MenuItem_toolTip: string) (MenuItem_click: handler)
    (MenuItem_submenu: "Menu option")
and Menu = Menu (items: "MenuItem list")

text \<open>
  \<open>Action\<close> and \<open>SubmenuAction\<close> of \<open>vs/base/common/actions\<close>, with the arguments
  the code passes to their constructors (\<open>id\<close>, \<open>label\<close>, \<open>cssClass\<close>, \<open>enabled\<close>, the
  callback \<open>() => action.click\<close>) and the two fields it assigns afterwards.
\<close>

datatype IAction =
  Action (Action_id: string) (Action_label: string) (Action_cssClass: string)
    (Action_enabled: bool) (Action_actionCallback: handler)
    (Action_tooltip: string) (Action_checked: bool)
| SubmenuAction (Action_id: string) (Action_label: string) (Action_actions: "IAction list")

text \<open>
  The closure \<open>updateActions\<close> of \<open>updateMenu\<close>. \<open>target\<close> is an array the caller
  passes in: \<open>target.splice(0)\<close> empties it, \<open>push\<close> appends, the final \<open>pop\<close> removes
  the last element (and does nothing on an empty array); the function's value is the
  content of \<open>target\<close> on return. \<open>updateActions_loop\<close> is the \<open>for ... of\<close> loop over
  \<open>menu.items\<close>.
\<close>

fun updateActions :: "bool \<Rightarrow> Menu \<Rightarrow> IAction list \<Rightarrow> string \<Rightarrow> IAction list"
and updateActions_loop :: "bool \<Rightarrow> MenuItem list \<Rightarrow> IAction list \<Rightarrow> string \<Rightarrow> IAction list" where
  "updateActions isMacintosh (Menu actions) target topLevelTitle =
     butlast (updateActions_loop isMacintosh actions [] topLevelTitle)"
| "updateActions_loop isMacintosh [] target topLevelTitle = target"
| "updateActions_loop isMacintosh (MenuItem i l e c t k (Some submenu) # rest) target topLevelTitle =
     (let submenuActions = updateActions isMacintosh submenu [] topLevelTitle
      in if length submenuActions > 0
         then updateActions_loop isMacintosh rest
                (target @ [SubmenuAction '''' (mnemonicMenuLabel isMacintosh l False) submenuActions])
                topLevelTitle
         else updateActions_loop isMacintosh rest target topLevelTitle)"
| "updateActions_loop isMacintosh (MenuItem i l e c t k None # rest) target topLevelTitle =
     updateActions_loop isMacintosh rest
       (target @ [Action i (mnemonicMenuLabel isMacintosh l False) '''' e k t c])
       topLevelTitle"

subsection \<open>updateMenu\<close>

text \<open>
  The menu bar (\<open>vs/base/browser/ui/menu/menubar\<close>) is an external collaborator: the
  model of a \<open>MenuBar\<close> object is the sequence of calls it has received.
\<close>

record MenuBarMenu =
  actions :: "IAction list"
  label :: string

datatype MenuBar_call =
  MenuBar_dispose
| MenuBar_update
| MenuBar_updateMenu MenuBarMenu
| MenuBar_push MenuBarMenu

text \<open>
  The fields of the title bar that \<open>updateMenu\<close> reads and writes: \<open>_menubar\<close>
  (\<open>None\<close> while undefined) and \<open>_options.menu\<close>.
\<close>

record Titlebar =
  menubar :: "MenuBar_call list option"
  options_menu :: "Menu option"

datatype error = TypeError

text \<open>
  The loop \<open>for (let item of menu.items)\<close>: each round builds a fresh \<open>actions\<close>
  array with \<open>updateActions(menu, actions, item.label)\<close> and hands it to the menu bar.
\<close>

fun updateMenu_loop :: "Menu \<Rightarrow> bool \<Rightarrow> MenuItem list \<Rightarrow> Titlebar \<Rightarrow> Titlebar" where
  "updateMenu_loop menu firstTime [] this = this"
| "updateMenu_loop menu firstTime (item # rest) this =
     (case menubar this of
        Some calls \<Rightarrow>
          (let actions' = updateActions False menu [] (MenuItem_label item);
               entry = \<lparr>actions = actions', label = mnemonicMenuLabel False (MenuItem_label item) False\<rparr>
           in if \<not> firstTime
              then updateMenu_loop menu firstTime rest
                     (this\<lparr>menubar := Some (calls @ [MenuBar_updateMenu entry])\<rparr>)
              else updateMenu_loop menu firstTime rest
                     (this\<lparr>menubar := Some (calls @ [MenuBar_push entry])\<rparr>))
      | None \<Rightarrow> updateMenu_loop menu firstTime rest this)"

text \<open>
  \<open>updateMenu(menu, firstTime)\<close>. \<open>menu\<close> is \<open>None\<close> when the caller passes
  \<open>null\<close> or \<open>undefined\<close>: then \<open>menu.items\<close> throws a \<open>TypeError\<close>. Listener
  registration and \<open>_updateStyles\<close> do not touch the two fields modelled.
\<close>

definition updateMenu :: "bool \<Rightarrow> Titlebar \<Rightarrow> Menu option \<Rightarrow> bool \<Rightarrow> error + Titlebar" where
  "updateMenu isMacintosh this menu firstTime =
     (if \<not> isMacintosh
      then
        (let this1 = (case menubar this of
                        Some calls \<Rightarrow> this\<lparr>menubar := Some (calls @ [MenuBar_dispose])\<rparr>
                      | None \<Rightarrow> this);
             this2 = (case menu of Some m \<Rightarrow> this1\<lparr>options_menu := Some m\<rparr> | None \<Rightarrow> this1);
             this3 = (if firstTime
                      then this2\<lparr>menubar := Some []\<rparr>
                      else (case menubar this2 of
                              Some calls \<Rightarrow> this2\<lparr>menubar := Some (calls @ [MenuBar_update])\<rparr>
                            | None \<Rightarrow> this2))
         in case menu of
              None \<Rightarrow> Inl TypeError
            | Some m \<Rightarrow> Inr (updateMenu_loop m firstTime (items m) this3))
      else Inr this)"

section \<open>Notions used to state the properties\<close>

text \<open>
  An item of a menu level produces an action when it is a leaf, or when the
  recursive build of its submenu yields at least one action (the condition under
  which the loop pushes).
\<close>

definition produces_action :: "bool \<Rightarrow> string \<Rightarrow> MenuItem \<Rightarrow> bool" where
  "produces_action isMacintosh topLevelTitle item =
     (case MenuItem_submenu item of
        None \<Rightarrow> True
      | Some submenu \<Rightarrow> 0 < length (updateActions isMacintosh submenu [] topLevelTitle))"

text \<open>
  The actions the loop body constructs for one item: for a leaf the \<open>Action\<close> with
  the item's id, transformed label, enabled flag, click handler, tooltip and checked
  flag; for an item with a submenu the \<open>SubmenuAction\<close> holding the submenu's build
  when that build is not empty, and nothing otherwise.
\<close>

definition item_actions :: "bool \<Rightarrow> string \<Rightarrow> MenuItem \<Rightarrow> IAction list" where
  "item_actions isMacintosh topLevelTitle item =
     (case MenuItem_submenu item of
        None \<Rightarrow>
          [Action (MenuItem_id item) (mnemonicMenuLabel isMacintosh (MenuItem_label item) False) ''''
             (MenuItem_enabled item) (MenuItem_click item) (MenuItem_toolTip item)
             (MenuItem_checked item)]
      | Some submenu \<Rightarrow>
          (let submenuActions = updateActions isMacintosh submenu [] topLevelTitle
           in if submenuActions = [] then []
              else [SubmenuAction '''' (mnemonicMenuLabel isMacintosh (MenuItem_label item) False)
                      submenuActions]))"

text \<open>
  The entry \<open>{ actions: actions, label: mnemonicMenuLabel(item.label) }\<close> that a
  top-level item would get if its actions were built from the whole menu.
\<close>

definition root_entry :: "Menu \<Rightarrow> MenuItem \<Rightarrow> MenuBarMenu" where
  "root_entry menu item =
     \<lparr>actions = updateActions False menu [] '''',
      label = mnemonicMenuLabel False (MenuItem_label item) False\<rparr>"

text \<open>
  The first \<open>replace\<close> of the Mac branch of \<open>mnemonicMenuLabel\<close>, which removes the
  matches of \<open>/\(&&\w\)|&&/\<close>.
\<close>

definition strip_mnemonics :: "string \<Rightarrow> string" where
  "strip_mnemonics l = String_replace_g re_group_or_amp_amp (\<lambda>m. '''') l"

text \<open>
  The label transforms as the specification words them, to compare with the code.
  Non-Mac: "&&" becomes "&" and a single "&" is left unchanged (the pattern
  \<open>/&&/\<close> replaced by \<open>&\<close>). Mac or mnemonics disabled: the groups and the "&&"
  sequences are removed, then every remaining "&" is escaped, that is, doubled.
\<close>

definition re_amp_amp :: "string \<Rightarrow> nat option" where
  "re_amp_amp s = (if take 2 s = ''&&'' then Some 2 else None)"

definition spec_nonMac_label :: "string \<Rightarrow> string" where
  "spec_nonMac_label l = String_replace_g re_amp_amp (\<lambda>m. ''&'') l"

definition escape_amp :: "string \<Rightarrow> string" where
  "escape_amp s = concat (map (\<lambda>c. if c = CHR ''&'' then ''&&'' else [c]) s)"

definition spec_strip_label :: "string \<Rightarrow> string" where
  "spec_strip_label l = escape_amp (strip_mnemonics l)"

section \<open>Properties of the keybinding decoder\<close>

lemmas BinaryKeybindingsMask_defs =
  BinaryKeybindingsMask_CtrlCmd_def BinaryKeybindingsMask_Shift_def BinaryKeybindingsMask_Alt_def
  BinaryKeybindingsMask_WinCtrl_def BinaryKeybindingsMask_KeyCode_def

lemma and_mask_bit_test: "((p::int) AND push_bit n 1 \<noteq> 0) = bit p n"
  by (simp add: bit_iff_and_push_bit_not_eq_0)

lemma and_255_low_byte: "(p::int) AND 255 = p mod 256"
  using take_bit_eq_mask [of 8 p] by (simp add: take_bit_eq_mod mask_eq_exp_minus_1)

lemma createSimpleKeybinding_fields:
  "ctrlKey (createSimpleKeybinding p os) = (if os = Macintosh then bit p 8 else bit p 11)"
  "shiftKey (createSimpleKeybinding p os) = bit p 10"
  "altKey (createSimpleKeybinding p os) = bit p 9"
  "metaKey (createSimpleKeybinding p os) = (if os = Macintosh then bit p 11 else bit p 8)"
  "keyCode (createSimpleKeybinding p os) = p mod 256"
  unfolding createSimpleKeybinding_def Let_def BinaryKeybindingsMask_defs and_mask_bit_test
  by (simp_all add: and_255_low_byte)

lemma createSimpleKeybinding_eval:
  "createSimpleKeybinding p os =
     \<lparr>ctrlKey = (if os = Macintosh then bit p 8 else bit p 11), shiftKey = bit p 10,
      altKey = bit p 9, metaKey = (if os = Macintosh then bit p 11 else bit p 8),
      keyCode = p mod 256\<rparr>"
  unfolding createSimpleKeybinding_def Let_def BinaryKeybindingsMask_defs and_mask_bit_test
  by (simp_all add: and_255_low_byte)

text \<open>
  Claim C1. For every packed integer \<open>p\<close> (in particular every 12-bit one) and every
  OS other than Macintosh, \<open>createSimpleKeybinding\<close> has exactly one result under
  either OS; the control flag decoded for Macintosh is the meta flag decoded for the
  other OS and the other way round; the shift and alt flags are bits 10 and 9 of
  \<open>p\<close> under both; the key code is the low 8 bits of \<open>p\<close> under both.
\<close>

theorem createSimpleKeybinding_modifier_swap:
  assumes "os \<noteq> Macintosh"
  shows "(\<exists>!k. createSimpleKeybinding p os = k)
    \<and> (\<exists>!k. createSimpleKeybinding p Macintosh = k)
    \<and> ctrlKey (createSimpleKeybinding p Macintosh) = metaKey (createSimpleKeybinding p os)
    \<and> metaKey (createSimpleKeybinding p Macintosh) = ctrlKey (createSimpleKeybinding p os)
    \<and> shiftKey (createSimpleKeybinding p Macintosh) = bit p 10
    \<and> shiftKey (createSimpleKeybinding p os) = bit p 10
    \<and> altKey (createSimpleKeybinding p Macintosh) = bit p 9
    \<and> altKey (createSimpleKeybinding p os) = bit p 9
    \<and> keyCode (createSimpleKeybinding p Macintosh) = p mod 2 ^ 8
    \<and> keyCode (createSimpleKeybinding p os) = p mod 2 ^ 8"
  using assms by (simp add: createSimpleKeybinding_fields)

text \<open>The same at the 12-bit value \<open>0b101100000001\<close> and Windows.\<close>

theorem createSimpleKeybinding_modifier_swap_witness:
  "Windows \<noteq> Macintosh
    \<and> ctrlKey (createSimpleKeybinding 0b101100000001 Macintosh)
        = metaKey (createSimpleKeybinding 0b101100000001 Windows)
    \<and> metaKey (createSimpleKeybinding 0b101100000001 Macintosh)
        = ctrlKey (createSimpleKeybinding 0b101100000001 Windows)
    \<and> shiftKey (createSimpleKeybinding 0b101100000001 Windows) = bit (0b101100000001 :: int) 10
    \<and> altKey (createSimpleKeybinding 0b101100000001 Windows) = bit (0b101100000001 :: int) 9
    \<and> keyCode (createSimpleKeybinding 0b101100000001 Windows) = 0b101100000001 mod 2 ^ 8"
  using createSimpleKeybinding_modifier_swap [of Windows "0b101100000001"] by simp

text \<open>
  The packed value \<open>0b000100000001\<close> has bit 8 (winCtrl) set, not bit 11 (ctrlCmd):
  on Windows it does not decode to a binding with the control flag set and the meta
  flag clear.
\<close>

theorem decode_scenario_counterexample:
  "createSimpleKeybinding 0b000100000001 Windows
     \<noteq> \<lparr>ctrlKey = True, shiftKey = False, altKey = False, metaKey = False, keyCode = 1\<rparr>"
  by (simp add: createSimpleKeybinding_eval)

text \<open>
  Claim C4, amended. On an OS other than Macintosh \<open>0b000100000001\<close> decodes to
  the meta flag alone with key code 1, and on Macintosh to the control flag alone
  with key code 1. The results the claim gives are those of \<open>0b100000000001\<close>, the
  value with the ctrlCmd bit set: the control flag alone on the other OS, the meta
  flag alone on Macintosh.
\<close>

theorem decode_scenario_amended:
  assumes "os \<noteq> Macintosh"
  shows "createSimpleKeybinding 0b000100000001 os
       = \<lparr>ctrlKey = False, shiftKey = False, altKey = False, metaKey = True, keyCode = 1\<rparr>
    \<and> createSimpleKeybinding 0b000100000001 Macintosh
       = \<lparr>ctrlKey = True, shiftKey = False, altKey = False, metaKey = False, keyCode = 1\<rparr>
    \<and> createSimpleKeybinding 0b100000000001 os
       = \<lparr>ctrlKey = True, shiftKey = False, altKey = False, metaKey = False, keyCode = 1\<rparr>
    \<and> createSimpleKeybinding 0b100000000001 Macintosh
       = \<lparr>ctrlKey = False, shiftKey = False, altKey = False, metaKey = True, keyCode = 1\<rparr>"
  using assms by (simp add: createSimpleKeybinding_eval)

theorem decode_scenario_amended_witness:
  "Linux \<noteq> Macintosh
    \<and> createSimpleKeybinding 0b000100000001 Linux
       = \<lparr>ctrlKey = False, shiftKey = False, altKey = False, metaKey = True, keyCode = 1\<rparr>
    \<and> createSimpleKeybinding 0b100000000001 Linux
       = \<lparr>ctrlKey = True, shiftKey = False, altKey = False, metaKey = False, keyCode = 1\<rparr>"
  using decode_scenario_amended [of Linux] by simp

section \<open>Properties of SimpleKeybinding and ScanCodeBinding\<close>

lemma modifier_cases:
  "(\<exists>m. P m) = (P ctrl \<or> P shift \<or> P alt \<or> P meta)"
proof
  assume "\<exists>m. P m"
  then obtain m where "P m" ..
  then show "P ctrl \<or> P shift \<or> P alt \<or> P meta" by (cases m) simp_all
qed blast

text \<open>
  Claim C7. \<open>isDuplicateModifierCase\<close> of a \<open>SimpleKeybinding\<close> is true exactly
  when some modifier has its flag set and the key code is that modifier's key code;
  of a \<open>ScanCodeBinding\<close>, exactly when some modifier has its flag set and the scan
  code is the left or the right scan code of that modifier. A binding with the
  control flag and the key code \<open>Ctrl\<close> is a duplicate modifier case; one with the
  control flag alone and the key code \<open>KeyA\<close> is not, \<open>KeyA\<close> being another member of
  the enum than \<open>Ctrl\<close>.
\<close>

theorem isDuplicateModifierCase_iff:
  "SimpleKeybinding_isDuplicateModifierCase K kb
       = (\<exists>m. modifier_flag m kb \<and> keyCode kb = modifier_keyCode K m)
    \<and> ScanCodeBinding_isDuplicateModifierCase S sb
       = (\<exists>m. modifier_flag m sb \<and> scanCode sb \<in> set (modifier_scanCodes S m))
    \<and> SimpleKeybinding_isDuplicateModifierCase K
         \<lparr>ctrlKey = True, shiftKey = s, altKey = a, metaKey = w, keyCode = KeyCode_Ctrl K\<rparr>
    \<and> (KeyCode_KeyA K \<noteq> KeyCode_Ctrl K \<longrightarrow>
         \<not> SimpleKeybinding_isDuplicateModifierCase K
           \<lparr>ctrlKey = True, shiftKey = False, altKey = False, metaKey = False,
            keyCode = KeyCode_KeyA K\<rparr>)"
  by (simp add: SimpleKeybinding_isDuplicateModifierCase_def
      ScanCodeBinding_isDuplicateModifierCase_def modifier_cases)

text \<open>
  The same with the key codes \<open>Ctrl = 5\<close>, \<open>Shift = 4\<close>, \<open>Alt = 6\<close>, \<open>Meta = 57\<close>,
  \<open>KeyA = 31\<close>: shift held with the key \<open>Shift\<close> is a duplicate modifier case, and
  so is alt held with the scan code \<open>AltRight\<close>.
\<close>

theorem isDuplicateModifierCase_iff_witness:
  "KeyCode_KeyA \<lparr>KeyCode_Unknown = 0, KeyCode_Ctrl = 5, KeyCode_Meta = 57, KeyCode_Alt = 6,
       KeyCode_Shift = 4, KeyCode_KeyA = 31\<rparr>
     \<noteq> KeyCode_Ctrl \<lparr>KeyCode_Unknown = 0, KeyCode_Ctrl = 5, KeyCode_Meta = 57, KeyCode_Alt = 6,
       KeyCode_Shift = 4, KeyCode_KeyA = 31\<rparr>
   \<and> SimpleKeybinding_isDuplicateModifierCase
       \<lparr>KeyCode_Unknown = 0, KeyCode_Ctrl = 5, KeyCode_Meta = 57, KeyCode_Alt = 6,
        KeyCode_Shift = 4, KeyCode_KeyA = 31\<rparr>
       \<lparr>ctrlKey = False, shiftKey = True, altKey = False, metaKey = False, keyCode = 4\<rparr>
   \<and> ScanCodeBinding_isDuplicateModifierCase
       \<lparr>ScanCode_ControlLeft = 157, ScanCode_ControlRight = 161, ScanCode_ShiftLeft = 158,
        ScanCode_ShiftRight = 162, ScanCode_AltLeft = 159, ScanCode_AltRight = 163,
        ScanCode_MetaLeft = 160, ScanCode_MetaRight = 164\<rparr>
       \<lparr>ctrlKey = False, shiftKey = False, altKey = True, metaKey = False, scanCode = 163\<rparr>
   \<and> \<not> SimpleKeybinding_isDuplicateModifierCase
       \<lparr>KeyCode_Unknown = 0, KeyCode_Ctrl = 5, KeyCode_Meta = 57, KeyCode_Alt = 6,
        KeyCode_Shift = 4, KeyCode_KeyA = 31\<rparr>
       \<lparr>ctrlKey = True, shiftKey = False, altKey = False, metaKey = False, keyCode = 31\<rparr>"
  using isDuplicateModifierCase_iff
    [of "\<lparr>KeyCode_Unknown = 0, KeyCode_Ctrl = 5, KeyCode_Meta = 57, KeyCode_Alt = 6,
           KeyCode_Shift = 4, KeyCode_KeyA = 31\<rparr>"
        "\<lparr>ctrlKey = False, shiftKey = True, altKey = False, metaKey = False, keyCode = 4\<rparr>"
        "\<lparr>ScanCode_ControlLeft = 157, ScanCode_ControlRight = 161, ScanCode_ShiftLeft = 158,
          ScanCode_ShiftRight = 162, ScanCode_AltLeft = 159, ScanCode_AltRight = 163,
          ScanCode_MetaLeft = 160, ScanCode_MetaRight = 164\<rparr>"
        "\<lparr>ctrlKey = False, shiftKey = False, altKey = True, metaKey = False, scanCode = 163\<rparr>"
        False False False]
  by (simp add: modifier_cases)

lemma digit_char_inj: "a < 10 \<Longrightarrow> b < 10 \<Longrightarrow> digit_char a = digit_char b \<Longrightarrow> a = b"
  unfolding digit_char_def
  by (simp add: nth_eq_iff_index_eq)

lemma digit_char_not_minus: "digit_char d \<noteq> CHR ''-''"
proof -
  have "digit_char d \<in> set ''0123456789''"
    unfolding digit_char_def by (rule nth_mem) simp
  then show ?thesis by auto
qed

lemma nat_toString_small: "n < 10 \<Longrightarrow> nat_toString n = [digit_char n]"
  by (subst nat_toString.simps) simp

lemma nat_toString_large:
  "\<not> n < 10 \<Longrightarrow> nat_toString n = nat_toString (n div 10) @ [digit_char (n mod 10)]"
  by (subst nat_toString.simps) simp

lemma nat_toString_not_Nil: "nat_toString n \<noteq> []"
  by (subst nat_toString.simps) simp

lemma nat_toString_no_minus: "CHR ''-'' \<notin> set (nat_toString n)"
proof (induction n rule: nat_toString.induct)
  case (1 n)
  show ?case
  proof (cases "n < 10")
    case True
    then show ?thesis using digit_char_not_minus [of n] by (simp add: nat_toString_small)
  next
    case False
    with 1 digit_char_not_minus [of "n mod 10"] show ?thesis
      by (simp add: nat_toString_large)
  qed
qed

lemma nat_toString_inj: "nat_toString m = nat_toString n \<Longrightarrow> m = n"
proof (induction m arbitrary: n rule: nat_toString.induct)
  case (1 m)
  show ?case
  proof (cases "m < 10")
    case m_small: True
    show ?thesis
    proof (cases "n < 10")
      case True
      with m_small 1(2) have "digit_char m = digit_char n" by (simp add: nat_toString_small)
      with m_small True show ?thesis by (rule digit_char_inj)
    next
      case False
      with m_small 1(2) have "nat_toString (n div 10) = []"
        by (simp add: nat_toString_small nat_toString_large)
      then show ?thesis by (simp add: nat_toString_not_Nil)
    qed
  next
    case m_large: False
    show ?thesis
    proof (cases "n < 10")
      case True
      with m_large 1(2) have "nat_toString (m div 10) = []"
        by (simp add: nat_toString_small nat_toString_large)
      then show ?thesis by (simp add: nat_toString_not_Nil)
    next
      case False
      with m_large 1(2) have heads: "nat_toString (m div 10) = nat_toString (n div 10)"
        and lasts: "digit_char (m mod 10) = digit_char (n mod 10)"
        by (simp_all add: nat_toString_large)
      from 1(1) [OF m_large heads] have "m div 10 = n div 10" .
      moreover from lasts have "m mod 10 = n mod 10" by (intro digit_char_inj) simp_all
      ultimately show ?thesis by (metis div_mult_mod_eq)
    qed
  qed
qed

lemma nat_toString_not_minus_Cons: "nat_toString n \<noteq> CHR ''-'' # s"
  using nat_toString_no_minus [of n] by auto

lemma Number_toString_inj: "Number_toString i = Number_toString j \<Longrightarrow> i = j"
proof -
  assume eq: "Number_toString i = Number_toString j"
  show "i = j"
  proof (cases "i < 0")
    case i_neg: True
    show ?thesis
    proof (cases "j < 0")
      case True
      with i_neg eq have "nat_toString (nat (- i)) = nat_toString (nat (- j))"
        by (simp add: Number_toString_def)
      then have "nat (- i) = nat (- j)" by (rule nat_toString_inj)
      with i_neg True show ?thesis by simp
    next
      case False
      with i_neg eq have "nat_toString (nat j) = CHR ''-'' # nat_toString (nat (- i))"
        by (simp add: Number_toString_def)
      then show ?thesis by (simp add: nat_toString_not_minus_Cons)
    qed
  next
    case i_pos: False
    show ?thesis
    proof (cases "j < 0")
      case True
      with i_pos eq have "nat_toString (nat i) = CHR ''-'' # nat_toString (nat (- j))"
        by (simp add: Number_toString_def)
      then show ?thesis by (simp add: nat_toString_not_minus_Cons)
    next
      case False
      with i_pos eq have "nat_toString (nat i) = nat_toString (nat j)"
        by (simp add: Number_toString_def)
      then have "nat i = nat j" by (rule nat_toString_inj)
      with i_pos False show ?thesis by simp
    qed
  qed
qed

lemma getHashCode_inj:
  "SimpleKeybinding_getHashCode a = SimpleKeybinding_getHashCode b \<Longrightarrow> SimpleKeybinding_equals a b"
  unfolding SimpleKeybinding_getHashCode_def SimpleKeybinding_equals_def Let_def
  by (auto split: if_splits dest: Number_toString_inj)

text \<open>
  Claim C8. \<open>equals\<close> on \<open>SimpleKeybinding\<close> is reflexive and symmetric, and holds
  exactly when the two bindings agree on all five fields, that is, when they are the
  same record; two bindings have the same hash code exactly when they are equal.
\<close>

theorem SimpleKeybinding_equals_hash:
  "SimpleKeybinding_equals a a
   \<and> SimpleKeybinding_equals a b = SimpleKeybinding_equals b a
   \<and> SimpleKeybinding_equals a b
       = (ctrlKey a = ctrlKey b \<and> shiftKey a = shiftKey b \<and> altKey a = altKey b
          \<and> metaKey a = metaKey b \<and> keyCode a = keyCode b)
   \<and> SimpleKeybinding_equals a b = (a = b)
   \<and> (SimpleKeybinding_getHashCode a = SimpleKeybinding_getHashCode b) = SimpleKeybinding_equals a b"
proof -
  have fieldwise: "SimpleKeybinding_equals a b = (a = b)"
    unfolding SimpleKeybinding_equals_def by (cases a, cases b) auto
  have "SimpleKeybinding_equals a b \<Longrightarrow> SimpleKeybinding_getHashCode a = SimpleKeybinding_getHashCode b"
    by (simp add: fieldwise)
  then have hash: "(SimpleKeybinding_getHashCode a = SimpleKeybinding_getHashCode b) = SimpleKeybinding_equals a b"
    using getHashCode_inj by blast
  have "SimpleKeybinding_equals a a" by (simp add: SimpleKeybinding_equals_def)
  moreover have "SimpleKeybinding_equals a b = SimpleKeybinding_equals b a"
    by (auto simp: SimpleKeybinding_equals_def)
  ultimately show ?thesis using fieldwise hash by (simp add: SimpleKeybinding_equals_def)
qed

text \<open>
  Two bindings that differ in the key code alone (\<open>1\<close> and \<open>10\<close>) have different
  hash codes and are not equal.
\<close>

theorem SimpleKeybinding_equals_hash_witness:
  "SimpleKeybinding_getHashCode
      \<lparr>ctrlKey = True, shiftKey = False, altKey = False, metaKey = False, keyCode = 1\<rparr>
     \<noteq> SimpleKeybinding_getHashCode
      \<lparr>ctrlKey = True, shiftKey = False, altKey = False, metaKey = False, keyCode = 10\<rparr>
   \<and> \<not> SimpleKeybinding_equals
      \<lparr>ctrlKey = True, shiftKey = False, altKey = False, metaKey = False, keyCode = 1\<rparr>
      \<lparr>ctrlKey = True, shiftKey = False, altKey = False, metaKey = False, keyCode = 10\<rparr>"
  using SimpleKeybinding_equals_hash
    [of "\<lparr>ctrlKey = True, shiftKey = False, altKey = False, metaKey = False, keyCode = 1\<rparr>"
        "\<lparr>ctrlKey = True, shiftKey = False, altKey = False, metaKey = False, keyCode = 10\<rparr>"]
  by (simp add: SimpleKeybinding_equals_def)

section \<open>Properties of the host-side relay\<close>

lemma attach_minimumSize:
  "minimumSize (attach browserWindow) = [400, attach_height (minimumSize browserWindow)]"
  by (simp add: attach_def Let_def on_def setMinimumSize_def getMinimumSize_def)

lemma attach_listeners:
  "listeners (attach browserWindow) = listeners browserWindow @
     [(''enter-full-screen'', (''window-fullscreen'', True)),
      (''leave-full-screen'', (''window-fullscreen'', False)),
      (''focus'', (''window-focus'', True)),
      (''blur'', (''window-focus'', False))]"
  by (simp add: attach_def Let_def on_def setMinimumSize_def)

lemma attach_sent: "sent (attach browserWindow) = sent browserWindow"
  by (simp add: attach_def Let_def on_def setMinimumSize_def)

text \<open>
  Claim C10. After \<open>attach\<close> the minimum size of the window is 400 by the derived
  height, so the minimum width is at least 400. An \<open>enter-full-screen\<close> event then
  sends \<open>window-fullscreen\<close> with \<open>true\<close>, \<open>leave-full-screen\<close> sends it with
  \<open>false\<close>, \<open>focus\<close> sends \<open>window-focus\<close> with \<open>true\<close> and \<open>blur\<close> sends it with
  \<open>false\<close>, each after whatever the listeners registered before \<open>attach\<close> send.
\<close>

theorem attach_relay:
  "minimumSize (attach browserWindow) = [400, attach_height (minimumSize browserWindow)]
   \<and> 400 \<le> minimumSize (attach browserWindow) ! 0
   \<and> sent (emit ''enter-full-screen'' (attach browserWindow))
       = sent (emit ''enter-full-screen'' browserWindow) @ [(''window-fullscreen'', True)]
   \<and> sent (emit ''leave-full-screen'' (attach browserWindow))
       = sent (emit ''leave-full-screen'' browserWindow) @ [(''window-fullscreen'', False)]
   \<and> sent (emit ''focus'' (attach browserWindow))
       = sent (emit ''focus'' browserWindow) @ [(''window-focus'', True)]
   \<and> sent (emit ''blur'' (attach browserWindow))
       = sent (emit ''blur'' browserWindow) @ [(''window-focus'', False)]"
  by (simp add: attach_minimumSize attach_listeners attach_sent emit_def)

text \<open>
  On a window with minimum size 800 by 600 and no listeners: the minimum size
  becomes 400 by 600, and a \<open>blur\<close> event sends \<open>window-focus\<close> with \<open>false\<close>.
\<close>

theorem attach_relay_witness:
  "minimumSize (attach \<lparr>minimumSize = [800, 600], listeners = [], sent = []\<rparr>) = [400, 600]
   \<and> sent (emit ''blur'' (attach \<lparr>minimumSize = [800, 600], listeners = [], sent = []\<rparr>))
       = [(''window-focus'', False)]"
  using attach_relay [of "\<lparr>minimumSize = [800, 600], listeners = [], sent = []\<rparr>"]
  by (simp add: attach_height_def sizes_1_truthy_def emit_def)

section \<open>Properties of the mnemonic label transforms\<close>

subsection \<open>Non-Mac, mnemonics enabled\<close>

lemma nonMac_Nil: "mnemonicMenuLabel False [] False = []"
  by (simp add: mnemonicMenuLabel_def String_replace_g.simps re_amp_amp_or_amp_def)

lemma nonMac_other:
  "c \<noteq> CHR ''&'' \<Longrightarrow> mnemonicMenuLabel False (c # cs) False = c # mnemonicMenuLabel False cs False"
  by (simp add: mnemonicMenuLabel_def String_replace_g.simps re_amp_amp_or_amp_def)

lemma nonMac_amp_amp:
  "mnemonicMenuLabel False (CHR ''&'' # CHR ''&'' # cs) False = CHR ''&'' # mnemonicMenuLabel False cs False"
  by (simp add: mnemonicMenuLabel_def String_replace_g.simps re_amp_amp_or_amp_def)

lemma nonMac_amp_other:
  "c \<noteq> CHR ''&'' \<Longrightarrow>
   mnemonicMenuLabel False (CHR ''&'' # c # cs) False = ''&&'' @ c # mnemonicMenuLabel False cs False"
  by (simp add: mnemonicMenuLabel_def String_replace_g.simps re_amp_amp_or_amp_def)

lemma nonMac_amp_end: "mnemonicMenuLabel False ''&'' False = ''&&''"
  by (simp add: mnemonicMenuLabel_def String_replace_g.simps re_amp_amp_or_amp_def)

lemmas nonMac_simps = nonMac_Nil nonMac_other nonMac_amp_amp nonMac_amp_other nonMac_amp_end

lemma nonMac_run_end:
  "mnemonicMenuLabel False (replicate k (CHR ''&'')) False
     = replicate (k div 2) (CHR ''&'') @ (if odd k then ''&&'' else '''')"
proof (induction k rule: less_induct)
  case (less k)
  consider "k = 0" | "k = 1" | j where "k = Suc (Suc j)"
    by (metis One_nat_def nat.exhaust)
  then show ?case
  proof cases
    case 1
    then show ?thesis by (simp add: nonMac_Nil)
  next
    case 2
    then show ?thesis by (simp add: nonMac_amp_end)
  next
    case 3
    then have "j < k" by simp
    from less [OF this] 3 show ?thesis by (simp add: nonMac_amp_amp)
  qed
qed

lemma nonMac_run_other:
  "c \<noteq> CHR ''&'' \<Longrightarrow>
   mnemonicMenuLabel False (replicate k (CHR ''&'') @ c # rest) False
     = replicate (k div 2) (CHR ''&'') @ (if odd k then ''&&'' else '''')
       @ c # mnemonicMenuLabel False rest False"
proof (induction k rule: less_induct)
  case (less k)
  consider "k = 0" | "k = 1" | j where "k = Suc (Suc j)"
    by (metis One_nat_def nat.exhaust)
  then show ?case
  proof cases
    case 1
    with less.prems show ?thesis by (simp add: nonMac_other)
  next
    case 2
    with less.prems show ?thesis by (simp add: nonMac_amp_other nonMac_other)
  next
    case 3
    then have "j < k" by simp
    from less.IH [OF this less.prems] 3 show ?thesis by (simp add: nonMac_amp_amp)
  qed
qed

lemma nonMac_no_amp:
  "CHR ''&'' \<notin> set l \<Longrightarrow> mnemonicMenuLabel False l False = l"
  by (induction l) (auto simp: nonMac_Nil nonMac_other)

text \<open>
  The label \<open>&File\<close> holds a single "&": the code doubles it, the transform as the
  claim words it leaves it unchanged.
\<close>

theorem mnemonicMenuLabel_nonMac_counterexample:
  "mnemonicMenuLabel False ''&File'' False = ''&&File''
   \<and> spec_nonMac_label ''&File'' = ''&File''
   \<and> mnemonicMenuLabel False ''&File'' False \<noteq> spec_nonMac_label ''&File''"
  by (simp add: nonMac_simps spec_nonMac_label_def String_replace_g.simps re_amp_amp_def)

text \<open>
  Claim C5, amended. On a non-Mac OS with mnemonics enabled, the transform maps
  every "&&" pair, matched from left to right, to "&", and doubles every remaining
  single "&" to "&&"; every other character is kept. So a run of \<open>k\<close> ampersands
  becomes \<open>k div 2\<close> ampersands, followed by "&&" when \<open>k\<close> is odd, whether the run
  ends the label or a character other than "&" follows it; and a label without "&"
  is unchanged.
\<close>

theorem mnemonicMenuLabel_nonMac_runs:
  "mnemonicMenuLabel False (replicate k (CHR ''&'')) False
     = replicate (k div 2) (CHR ''&'') @ (if odd k then ''&&'' else '''')
   \<and> (c \<noteq> CHR ''&'' \<longrightarrow>
        mnemonicMenuLabel False (replicate k (CHR ''&'') @ c # rest) False
          = replicate (k div 2) (CHR ''&'') @ (if odd k then ''&&'' else '''')
            @ c # mnemonicMenuLabel False rest False)
   \<and> (CHR ''&'' \<notin> set l \<longrightarrow> mnemonicMenuLabel False l False = l)"
  by (simp add: nonMac_run_end nonMac_run_other nonMac_no_amp)

text \<open>
  A run of three ampersands before \<open>b\<close>: one pair gives "&", the single one left
  gives "&&".
\<close>

theorem mnemonicMenuLabel_nonMac_runs_witness:
  "CHR ''b'' \<noteq> CHR ''&''
   \<and> CHR ''&'' \<notin> set ''cd''
   \<and> mnemonicMenuLabel False ''&&&'' False = ''&'' @ ''&&''
   \<and> mnemonicMenuLabel False ''&&&bcd'' False = ''&'' @ ''&&'' @ ''bcd''
   \<and> mnemonicMenuLabel False ''cd'' False = ''cd''"
proof -
  have run: "replicate 3 (CHR ''&'') = ''&&&''"
    by (simp add: numeral_3_eq_3)
  have half: "(3::nat) div 2 = 1"
    by simp
  from mnemonicMenuLabel_nonMac_runs [of 3 "CHR ''b''" "''cd''" "''cd''"]
  show ?thesis
    unfolding run half by simp
qed

subsection \<open>Mac, or mnemonics disabled\<close>

lemma is_word_char_paren: "\<not> is_word_char (CHR ''('')"
  by (simp add: is_word_char_def)

lemma strip_mnemonics_Nil: "strip_mnemonics [] = []"
  by (simp add: strip_mnemonics_def String_replace_g.simps re_group_or_amp_amp_def)

lemma re_group_or_amp_amp_cases:
  "re_group_or_amp_amp s = None \<or> re_group_or_amp_amp s = Some 2 \<or> re_group_or_amp_amp s = Some 5"
  by (simp add: re_group_or_amp_amp_def)

lemma strip_mnemonics_Cons:
  "strip_mnemonics (c # cs) =
     (case re_group_or_amp_amp (c # cs) of
        None \<Rightarrow> c # strip_mnemonics cs
      | Some n \<Rightarrow> strip_mnemonics (drop n (c # cs)))"
  using re_group_or_amp_amp_cases [of "c # cs"]
  by (auto simp: strip_mnemonics_def String_replace_g.simps numeral_2_eq_2 eval_nat_numeral)

lemma strip_mnemonics_group:
  "is_word_char x \<Longrightarrow>
   strip_mnemonics (CHR ''('' # CHR ''&'' # CHR ''&'' # x # CHR '')'' # rest) = strip_mnemonics rest"
  by (simp add: strip_mnemonics_Cons re_group_or_amp_amp_def)

lemma strip_mnemonics_amp_amp:
  "strip_mnemonics (CHR ''&'' # CHR ''&'' # rest) = strip_mnemonics rest"
  by (simp add: strip_mnemonics_Cons re_group_or_amp_amp_def)

lemma strip_mnemonics_plain:
  "c \<noteq> CHR ''&'' \<Longrightarrow> c \<noteq> CHR ''('' \<Longrightarrow> strip_mnemonics (c # cs) = c # strip_mnemonics cs"
  by (cases cs) (simp_all add: strip_mnemonics_Cons re_group_or_amp_amp_def)

lemma strip_mnemonics_no_amp:
  "CHR ''&'' \<notin> set l \<Longrightarrow> strip_mnemonics l = l"
proof (induction l)
  case Nil
  show ?case by (rule strip_mnemonics_Nil)
next
  case (Cons c cs)
  then have "re_group_or_amp_amp (c # cs) = None"
    by (cases cs) (auto simp: re_group_or_amp_amp_def)
  with Cons show ?case by (simp add: strip_mnemonics_Cons)
qed

lemma list_upto_5:
  obtains "u = []" | a where "u = [a]" | a b where "u = [a, b]" | a b c where "u = [a, b, c]"
  | a b c d where "u = [a, b, c, d]" | a b c d e v where "u = a # b # c # d # e # v"
proof (cases u)
  case Nil
  then show ?thesis using that(1) by simp
next
  case u1: (Cons a u1)
  show ?thesis
  proof (cases u1)
    case Nil
    with u1 show ?thesis using that(2) by simp
  next
    case u2: (Cons b u2)
    show ?thesis
    proof (cases u2)
      case Nil
      with u1 u2 show ?thesis using that(3) by simp
    next
      case u3: (Cons c u3)
      show ?thesis
      proof (cases u3)
        case Nil
        with u1 u2 u3 show ?thesis using that(4) by simp
      next
        case u4: (Cons d u4)
        show ?thesis
        proof (cases u4)
          case Nil
          with u1 u2 u3 u4 show ?thesis using that(5) by simp
        next
          case (Cons e v)
          with u1 u2 u3 u4 show ?thesis using that(6) by simp
        qed
      qed
    qed
  qed
qed

lemma re_group_or_amp_amp_before_paren:
  assumes "u \<noteq> []"
  shows "re_group_or_amp_amp (u @ CHR ''('' # s) = re_group_or_amp_amp u"
proof (cases u rule: list_upto_5)
  case 1
  with assms show ?thesis by simp
next
  case (2 a)
  then show ?thesis by (simp add: re_group_or_amp_amp_def)
next
  case (3 a b)
  then show ?thesis by (simp add: re_group_or_amp_amp_def)
next
  case (4 a b c)
  then show ?thesis by (simp add: re_group_or_amp_amp_def is_word_char_paren)
next
  case (5 a b c d)
  then show ?thesis by (simp add: re_group_or_amp_amp_def)
next
  case (6 a b c d e v)
  then show ?thesis by (simp add: re_group_or_amp_amp_def)
qed

lemma re_group_or_amp_amp_length:
  "re_group_or_amp_amp u = Some n \<Longrightarrow> 0 < n \<and> n \<le> length u"
  by (cases u rule: list_upto_5) (auto simp: re_group_or_amp_amp_def split: if_splits)

lemma strip_mnemonics_append_paren:
  "strip_mnemonics (pre @ CHR ''('' # s) = strip_mnemonics pre @ strip_mnemonics (CHR ''('' # s)"
proof (induction pre rule: length_induct)
  case (1 pre)
  show ?case
  proof (cases pre)
    case Nil
    then show ?thesis by (simp add: strip_mnemonics_Nil)
  next
    case (Cons c cs)
    then have same: "re_group_or_amp_amp (pre @ CHR ''('' # s) = re_group_or_amp_amp pre"
      by (intro re_group_or_amp_amp_before_paren) simp
    show ?thesis
    proof (cases "re_group_or_amp_amp pre")
      case None
      from 1 Cons have "strip_mnemonics (cs @ CHR ''('' # s)
          = strip_mnemonics cs @ strip_mnemonics (CHR ''('' # s)"
        by simp
      with None same Cons show ?thesis by (simp add: strip_mnemonics_Cons)
    next
      case (Some n)
      then have n: "0 < n" "n \<le> length pre"
        using re_group_or_amp_amp_length by blast+
      then have "length (drop n pre) < length pre" using Cons by simp
      with 1 have "strip_mnemonics (drop n pre @ CHR ''('' # s)
          = strip_mnemonics (drop n pre) @ strip_mnemonics (CHR ''('' # s)"
        by blast
      moreover from n have "drop n (pre @ CHR ''('' # s) = drop n pre @ CHR ''('' # s" by simp
      ultimately show ?thesis
        using Some same Cons strip_mnemonics_Cons [of c "cs @ CHR ''('' # s"]
          strip_mnemonics_Cons [of c cs]
        by simp
    qed
  qed
qed

lemma strip_mnemonics_removes_group:
  "is_word_char x \<Longrightarrow>
   strip_mnemonics (pre @ ''(&&'' @ x # '')'' @ post) = strip_mnemonics pre @ strip_mnemonics post"
  using strip_mnemonics_append_paren [of pre "''&&'' @ x # '')'' @ post"]
  by (simp add: strip_mnemonics_group)

lemma strip_mnemonics_plain_prefix:
  "CHR ''&'' \<notin> set pre \<Longrightarrow> CHR ''('' \<notin> set pre \<Longrightarrow>
   strip_mnemonics (pre @ s) = pre @ strip_mnemonics s"
  by (induction pre) (auto simp: strip_mnemonics_plain)

lemma replace_amp_Nil: "String_replace_g re_amp f [] = []"
  by (simp add: String_replace_g.simps re_amp_def)

lemma replace_amp_Cons:
  "String_replace_g re_amp f (c # cs) =
     (if c = CHR ''&'' then f ''&'' else [c]) @ String_replace_g re_amp f cs"
  by (simp add: String_replace_g.simps re_amp_def)

lemma replace_amp_by_amp: "String_replace_g re_amp (\<lambda>m. ''&'') s = s"
  by (induction s) (simp_all add: replace_amp_Nil replace_amp_Cons)

lemma replace_amp_by_amp_amp: "String_replace_g re_amp (\<lambda>m. ''&&'') s = escape_amp s"
  by (induction s) (simp_all add: replace_amp_Nil replace_amp_Cons escape_amp_def)

lemma escape_amp_no_amp: "CHR ''&'' \<notin> set s \<Longrightarrow> escape_amp s = s"
  by (induction s) (auto simp: escape_amp_def)

lemma mnemonicMenuLabel_Mac: "mnemonicMenuLabel True l f = strip_mnemonics l"
  by (simp add: mnemonicMenuLabel_def replace_amp_by_amp strip_mnemonics_def)

lemma mnemonicMenuLabel_disabled: "mnemonicMenuLabel False l True = escape_amp (strip_mnemonics l)"
  by (simp add: mnemonicMenuLabel_def replace_amp_by_amp_amp strip_mnemonics_def)

text \<open>
  On a Mac the label \<open>a&b\<close>, which holds a single "&" and nothing to remove, is
  returned as it is; the transform as the claim words it escapes the "&".
\<close>

theorem mnemonicMenuLabel_Mac_counterexample:
  "mnemonicMenuLabel True ''a&b'' False = ''a&b''
   \<and> spec_strip_label ''a&b'' = ''a&&b''
   \<and> mnemonicMenuLabel True ''a&b'' False \<noteq> spec_strip_label ''a&b''"
  by (simp add: mnemonicMenuLabel_Mac spec_strip_label_def escape_amp_def
      strip_mnemonics_Cons strip_mnemonics_Nil re_group_or_amp_amp_def)

text \<open>
  Claim C6, amended. On a Mac the transform is the removal pass alone: it removes
  every "(&&X)" group with \<open>X\<close> a word character, wherever it stands in the label,
  and every "&&" the scan reaches (here: behind a prefix without "&" and "("), and
  leaves any remaining "&" as it is. With mnemonics disabled on another OS the same
  removal is followed by doubling every remaining "&" to "&&", its escaped form.
  In both cases a label without "&" is returned unchanged.
\<close>

theorem mnemonicMenuLabel_strip:
  "mnemonicMenuLabel True l f = strip_mnemonics l
   \<and> mnemonicMenuLabel False l True = escape_amp (strip_mnemonics l)
   \<and> (is_word_char x \<longrightarrow>
        strip_mnemonics (pre @ ''(&&'' @ x # '')'' @ post)
          = strip_mnemonics pre @ strip_mnemonics post)
   \<and> (CHR ''&'' \<notin> set pre \<and> CHR ''('' \<notin> set pre \<longrightarrow>
        strip_mnemonics (pre @ ''&&'' @ post) = pre @ strip_mnemonics post)
   \<and> (CHR ''&'' \<notin> set l \<longrightarrow>
        mnemonicMenuLabel True l f = l \<and> mnemonicMenuLabel False l True = l)"
proof (intro conjI impI)
  show "mnemonicMenuLabel True l f = strip_mnemonics l"
    by (rule mnemonicMenuLabel_Mac)
  show "mnemonicMenuLabel False l True = escape_amp (strip_mnemonics l)"
    by (rule mnemonicMenuLabel_disabled)
  show "strip_mnemonics (pre @ ''(&&'' @ x # '')'' @ post)
      = strip_mnemonics pre @ strip_mnemonics post" if "is_word_char x"
    using that by (rule strip_mnemonics_removes_group)
  show "strip_mnemonics (pre @ ''&&'' @ post) = pre @ strip_mnemonics post"
    if "CHR ''&'' \<notin> set pre \<and> CHR ''('' \<notin> set pre"
    using that by (simp add: strip_mnemonics_plain_prefix strip_mnemonics_amp_amp)
  show "mnemonicMenuLabel True l f = l" if "CHR ''&'' \<notin> set l"
    using that by (simp add: mnemonicMenuLabel_Mac strip_mnemonics_no_amp)
  show "mnemonicMenuLabel False l True = l" if "CHR ''&'' \<notin> set l"
    using that by (simp add: mnemonicMenuLabel_disabled strip_mnemonics_no_amp escape_amp_no_amp)
qed

text \<open>
  The label \<open>Edit(&&E) R&&D\<close>: the group and the pair are removed under both;
  \<open>Save & Quit\<close> keeps its "&" on a Mac and has it doubled with mnemonics disabled
  on another OS; \<open>Help\<close> is unchanged.
\<close>

theorem mnemonicMenuLabel_strip_witness:
  "is_word_char (CHR ''E'')
   \<and> mnemonicMenuLabel True ''Edit(&&E) R&&D'' False = ''Edit RD''
   \<and> mnemonicMenuLabel False ''Edit(&&E) R&&D'' True = ''Edit RD''
   \<and> mnemonicMenuLabel True ''Save & Quit'' False = ''Save & Quit''
   \<and> mnemonicMenuLabel False ''Save & Quit'' True = ''Save && Quit''
   \<and> CHR ''&'' \<notin> set ''Help''
   \<and> mnemonicMenuLabel True ''Help'' False = ''Help''
   \<and> mnemonicMenuLabel False ''Help'' True = ''Help''"
proof -
  have word: "is_word_char (CHR ''E'')"
    by (simp add: is_word_char_def)
  have RD: "strip_mnemonics '' R&&D'' = '' RD''"
    using mnemonicMenuLabel_strip [of "''D''" False "CHR ''E''" "'' R''" "''D''"]
    by (simp add: strip_mnemonics_no_amp)
  have Edit: "strip_mnemonics ''Edit(&&E) R&&D'' = ''Edit RD''"
    using mnemonicMenuLabel_strip [of "''Edit''" False "CHR ''E''" "''Edit''" "'' R&&D''"] word RD
    by (simp add: strip_mnemonics_no_amp)
  have Save: "strip_mnemonics ''Save & Quit'' = ''Save & Quit''"
    by (simp add: strip_mnemonics_Cons strip_mnemonics_Nil re_group_or_amp_amp_def)
  have Help: "CHR ''&'' \<notin> set ''Help''"
    by simp
  show ?thesis
    using mnemonicMenuLabel_strip [of "''Edit(&&E) R&&D''" False "CHR ''E''" "''Edit''" "'' R&&D''"]
      mnemonicMenuLabel_strip [of "''Save & Quit''" False "CHR ''E''" "''Edit''" "'' R&&D''"]
      mnemonicMenuLabel_strip [of "''Help''" False "CHR ''E''" "''Edit''" "'' R&&D''"]
      word Edit Save Help
    by (simp add: escape_amp_def strip_mnemonics_no_amp)
qed

section \<open>Properties of the menu action tree\<close>

lemma updateActions_loop_target:
  "updateActions_loop isMacintosh its target t = target @ updateActions_loop isMacintosh its [] t"
proof (induction its arbitrary: target)
  case Nil
  show ?case by simp
next
  case (Cons item its)
  obtain i l e c tt k sub where item: "item = MenuItem i l e c tt k sub" by (cases item)
  show ?case
  proof (cases sub)
    case None
    let ?a = "Action i (mnemonicMenuLabel isMacintosh l False) '''' e k tt c"
    from Cons.IH [of "target @ [?a]"] Cons.IH [of "[?a]"] show ?thesis
      by (simp add: item None)
  next
    case (Some submenu)
    let ?a = "SubmenuAction '''' (mnemonicMenuLabel isMacintosh l False)
                (updateActions isMacintosh submenu [] t)"
    from Cons.IH [of "target @ [?a]"] Cons.IH [of "[?a]"] Cons.IH [of target] show ?thesis
      by (simp add: item Some Let_def)
  qed
qed

lemma updateActions_loop_Cons:
  "updateActions_loop isMacintosh (item # its) [] t =
     updateActions_loop isMacintosh [item] [] t @ updateActions_loop isMacintosh its [] t"
proof -
  obtain i l e c tt k sub where item: "item = MenuItem i l e c tt k sub" by (cases item)
  show ?thesis
  proof (cases sub)
    case None
    then show ?thesis
      using updateActions_loop_target [of isMacintosh its "[Action i (mnemonicMenuLabel isMacintosh l False) '''' e k tt c]" t]
      by (simp add: item)
  next
    case (Some submenu)
    then show ?thesis
      using updateActions_loop_target [of isMacintosh its
          "[SubmenuAction '''' (mnemonicMenuLabel isMacintosh l False) (updateActions isMacintosh submenu [] t)]" t]
      by (simp add: item Let_def)
  qed
qed

lemma updateActions_loop_single_length:
  "length (updateActions_loop isMacintosh [item] [] t) = (if produces_action isMacintosh t item then 1 else 0)"
proof -
  obtain i l e c tt k sub where item: "item = MenuItem i l e c tt k sub" by (cases item)
  show ?thesis by (cases sub) (simp_all add: item produces_action_def Let_def)
qed

lemma updateActions_loop_length:
  "length (updateActions_loop isMacintosh its [] t) = length (filter (produces_action isMacintosh t) its)"
proof (induction its)
  case Nil
  show ?case by simp
next
  case (Cons item its)
  then show ?case
    by (subst updateActions_loop_Cons) (simp add: updateActions_loop_single_length)
qed

lemma updateActions_Menu:
  "updateActions isMacintosh menu target t = butlast (updateActions_loop isMacintosh (items menu) [] t)"
  by (cases menu) simp

lemma updateActions_loop_single:
  "updateActions_loop isMacintosh [item] [] t = item_actions isMacintosh t item"
proof -
  obtain i l e c tt k sub where item: "item = MenuItem i l e c tt k sub" by (cases item)
  show ?thesis by (cases sub) (simp_all add: item item_actions_def Let_def)
qed

lemma updateActions_loop_concat:
  "updateActions_loop isMacintosh its [] t = concat (map (item_actions isMacintosh t) its)"
proof (induction its)
  case Nil
  show ?case by simp
next
  case (Cons item its)
  then show ?case
    by (subst updateActions_loop_Cons) (simp add: updateActions_loop_single)
qed

lemma item_actions_produces:
  "produces_action isMacintosh t x \<Longrightarrow> \<exists>a. item_actions isMacintosh t x = [a]"
  by (cases "MenuItem_submenu x") (simp_all add: produces_action_def item_actions_def Let_def)

lemma updateActions_last_item:
  assumes "items menu = pre @ [x]" and "produces_action isMacintosh t x"
  shows "updateActions isMacintosh menu target t = concat (map (item_actions isMacintosh t) pre)"
proof -
  from assms(2) obtain a where "item_actions isMacintosh t x = [a]"
    using item_actions_produces by blast
  with assms(1) show ?thesis
    by (simp add: updateActions_Menu updateActions_loop_concat)
qed

text \<open>
  Claim C3. At every menu level the loop constructs the actions of the items in
  item order (for each item the actions of \<open>item_actions\<close>), and the build returns
  that list without its last element. So when the last item of the level produces
  an action, it is exactly that action which is removed, and the result is the list
  of the actions of the items before it. The number of actions constructed is the
  number of items that produce one; when each of the \<open>n\<close> items of the level
  produces an action, \<open>n\<close> actions are constructed and the result holds the actions
  of the first \<open>n - 1\<close> items, which are \<open>n - 1\<close> actions (one less than \<open>n\<close> when
  the level is not empty, none when it is empty).
\<close>

theorem updateActions_drops_trailing_action:
  "updateActions_loop isMacintosh (items menu) [] t
     = concat (map (item_actions isMacintosh t) (items menu))
   \<and> updateActions isMacintosh menu target t
     = butlast (concat (map (item_actions isMacintosh t) (items menu)))
   \<and> (items menu = pre @ [x] \<and> produces_action isMacintosh t x \<longrightarrow>
        updateActions_loop isMacintosh (items menu) [] t
          = concat (map (item_actions isMacintosh t) pre) @ item_actions isMacintosh t x
        \<and> length (item_actions isMacintosh t x) = 1
        \<and> updateActions isMacintosh menu target t
          = concat (map (item_actions isMacintosh t) pre))
   \<and> (items menu = [] \<longrightarrow> updateActions isMacintosh menu target t = [])
   \<and> length (updateActions_loop isMacintosh (items menu) [] t)
       = length (filter (produces_action isMacintosh t) (items menu))
   \<and> ((\<forall>item \<in> set (items menu). produces_action isMacintosh t item) \<longrightarrow>
        length (updateActions_loop isMacintosh (items menu) [] t) = length (items menu)
        \<and> updateActions isMacintosh menu target t
            = concat (map (item_actions isMacintosh t) (butlast (items menu)))
        \<and> length (updateActions isMacintosh menu target t) = length (items menu) - 1
        \<and> (items menu \<noteq> [] \<longrightarrow>
              Suc (length (updateActions isMacintosh menu target t)) = length (items menu)))"
proof (intro conjI impI)
  show loop: "updateActions_loop isMacintosh (items menu) [] t
      = concat (map (item_actions isMacintosh t) (items menu))"
    by (rule updateActions_loop_concat)
  show "updateActions isMacintosh menu target t
      = butlast (concat (map (item_actions isMacintosh t) (items menu)))"
    by (simp add: updateActions_Menu updateActions_loop_concat)
  show "updateActions_loop isMacintosh (items menu) [] t
      = concat (map (item_actions isMacintosh t) pre) @ item_actions isMacintosh t x"
    if "items menu = pre @ [x] \<and> produces_action isMacintosh t x"
    using that by (simp add: updateActions_loop_concat)
  show "length (item_actions isMacintosh t x) = 1"
    if "items menu = pre @ [x] \<and> produces_action isMacintosh t x"
    using that item_actions_produces [of isMacintosh t x] by auto
  show "updateActions isMacintosh menu target t = concat (map (item_actions isMacintosh t) pre)"
    if "items menu = pre @ [x] \<and> produces_action isMacintosh t x"
    using that updateActions_last_item by blast
  show "updateActions isMacintosh menu target t = []" if "items menu = []"
    using that by (simp add: updateActions_Menu)
  show count: "length (updateActions_loop isMacintosh (items menu) [] t)
      = length (filter (produces_action isMacintosh t) (items menu))"
    by (rule updateActions_loop_length)
  assume all: "\<forall>item \<in> set (items menu). produces_action isMacintosh t item"
  then have "filter (produces_action isMacintosh t) (items menu) = items menu"
    by simp
  with count show constructed: "length (updateActions_loop isMacintosh (items menu) [] t)
      = length (items menu)"
    by simp
  show kept: "updateActions isMacintosh menu target t
      = concat (map (item_actions isMacintosh t) (butlast (items menu)))"
  proof (cases "items menu = []")
    case True
    then show ?thesis by (simp add: updateActions_Menu)
  next
    case False
    then have split: "items menu = butlast (items menu) @ [last (items menu)]"
      by simp
    from False all have "produces_action isMacintosh t (last (items menu))"
      by simp
    with split show ?thesis by (rule updateActions_last_item)
  qed
  from constructed show "length (updateActions isMacintosh menu target t) = length (items menu) - 1"
    by (simp add: updateActions_Menu)
  from constructed show "Suc (length (updateActions isMacintosh menu target t)) = length (items menu)"
    if "items menu \<noteq> []"
    using that by (simp add: updateActions_Menu)
qed

text \<open>
  A level of three leaves \<open>New\<close>, \<open>Open\<close>, \<open>Exit\<close>: the actions for \<open>New\<close>, \<open>Open\<close>
  and \<open>Exit\<close> are constructed in this order, and the build returns the actions for
  \<open>New\<close> and \<open>Open\<close>; the one for \<open>Exit\<close>, constructed last, is removed.
\<close>

theorem updateActions_drops_trailing_action_witness:
  "items (Menu [MenuItem ''n'' ''New'' True False '''' 1 None,
        MenuItem ''o'' ''Open'' True False '''' 2 None,
        MenuItem ''x'' ''Exit'' True False '''' 3 None])
     = [MenuItem ''n'' ''New'' True False '''' 1 None,
        MenuItem ''o'' ''Open'' True False '''' 2 None] @ [MenuItem ''x'' ''Exit'' True False '''' 3 None]
   \<and> produces_action False '''' (MenuItem ''n'' ''New'' True False '''' 1 None)
   \<and> produces_action False '''' (MenuItem ''o'' ''Open'' True False '''' 2 None)
   \<and> produces_action False '''' (MenuItem ''x'' ''Exit'' True False '''' 3 None)
   \<and> updateActions_loop False [MenuItem ''n'' ''New'' True False '''' 1 None,
        MenuItem ''o'' ''Open'' True False '''' 2 None,
        MenuItem ''x'' ''Exit'' True False '''' 3 None] [] ''''
      = [Action ''n'' ''New'' '''' True 1 '''' False,
         Action ''o'' ''Open'' '''' True 2 '''' False,
         Action ''x'' ''Exit'' '''' True 3 '''' False]
   \<and> updateActions False (Menu [MenuItem ''n'' ''New'' True False '''' 1 None,
        MenuItem ''o'' ''Open'' True False '''' 2 None,
        MenuItem ''x'' ''Exit'' True False '''' 3 None]) [] ''''
      = [Action ''n'' ''New'' '''' True 1 '''' False,
         Action ''o'' ''Open'' '''' True 2 '''' False]
   \<and> length (updateActions False (Menu [MenuItem ''n'' ''New'' True False '''' 1 None,
        MenuItem ''o'' ''Open'' True False '''' 2 None,
        MenuItem ''x'' ''Exit'' True False '''' 3 None]) [] '''') = 2"
proof -
  have labels: "mnemonicMenuLabel False ''New'' False = ''New''"
    "mnemonicMenuLabel False ''Open'' False = ''Open''"
    "mnemonicMenuLabel False ''Exit'' False = ''Exit''"
    by (simp_all add: nonMac_no_amp)
  show ?thesis
    using updateActions_drops_trailing_action
      [of False "Menu [MenuItem ''n'' ''New'' True False '''' 1 None,
          MenuItem ''o'' ''Open'' True False '''' 2 None,
          MenuItem ''x'' ''Exit'' True False '''' 3 None]" "''''" "[]"
          "[MenuItem ''n'' ''New'' True False '''' 1 None,
            MenuItem ''o'' ''Open'' True False '''' 2 None]"
          "MenuItem ''x'' ''Exit'' True False '''' 3 None"]
    by (simp add: produces_action_def item_actions_def labels)
qed

lemma updateActions_loop_no_empty_submenu:
  "SubmenuAction i l [] \<notin> set (updateActions_loop isMacintosh its [] t)"
proof (induction its)
  case Nil
  show ?case by simp
next
  case (Cons item its)
  obtain i' l' e c tt k sub where item: "item = MenuItem i' l' e c tt k sub" by (cases item)
  have "SubmenuAction i l [] \<notin> set (updateActions_loop isMacintosh [item] [] t)"
    by (cases sub) (auto simp: item Let_def)
  with Cons show ?case
    by (subst updateActions_loop_Cons) simp
qed

lemma updateActions_no_empty_submenu:
  "SubmenuAction i l [] \<notin> set (updateActions isMacintosh menu target t)"
  using updateActions_loop_no_empty_submenu [of i l isMacintosh "items menu" t]
  by (auto simp: updateActions_Menu dest: in_set_butlastD)

text \<open>
  Claim C2 at the menu whose only top-level item \<open>File\<close> has the submenu
  \<open>New\<close>, \<open>Open\<close>: the recursive build of the submenu yields one action (\<open>New\<close>;
  \<open>Open\<close> is dropped as the trailing action of its level), so a \<open>SubmenuAction\<close> for
  \<open>File\<close> is constructed; being the last action of the top level, it is dropped as
  well, and the built list is empty.
\<close>

theorem updateActions_loses_last_submenu:
  "updateActions False
     (Menu [MenuItem ''o'' ''Open'' True False '''' 2 None]) [] ''File'' = []
   \<and> updateActions False
     (Menu [MenuItem ''n'' ''New'' True False '''' 1 None,
            MenuItem ''o'' ''Open'' True False '''' 2 None]) [] ''File''
     = [Action ''n'' ''New'' '''' True 1 '''' False]
   \<and> updateActions_loop False
     [MenuItem ''f'' ''File'' True False '''' 0
        (Some (Menu [MenuItem ''n'' ''New'' True False '''' 1 None,
                     MenuItem ''o'' ''Open'' True False '''' 2 None]))] [] ''File''
     = [SubmenuAction '''' ''File'' [Action ''n'' ''New'' '''' True 1 '''' False]]
   \<and> updateActions False
     (Menu [MenuItem ''f'' ''File'' True False '''' 0
        (Some (Menu [MenuItem ''n'' ''New'' True False '''' 1 None,
                     MenuItem ''o'' ''Open'' True False '''' 2 None]))]) [] ''File''
     = []"
  by (simp add: nonMac_no_amp)

lemma updateActions_ignores_target_and_title:
  "updateActions isMacintosh menu target t = updateActions isMacintosh menu [] ''''"
  "updateActions_loop isMacintosh its target t = target @ updateActions_loop isMacintosh its [] ''''"
proof (induction isMacintosh menu target t and isMacintosh its target t
    rule: updateActions_updateActions_loop.induct)
  case (1 isMacintosh actions target topLevelTitle)
  then show ?case by simp
next
  case (2 isMacintosh target topLevelTitle)
  show ?case by simp
next
  case (3 isMacintosh i l e c t k submenu rest target topLevelTitle)
  let ?sub = "updateActions isMacintosh submenu [] ''''"
  let ?a = "SubmenuAction '''' (mnemonicMenuLabel isMacintosh l False) ?sub"
  have sub: "updateActions isMacintosh submenu [] topLevelTitle = ?sub" by (rule 3(1))
  show ?case
  proof (cases "0 < length ?sub")
    case True
    with 3(2) [OF refl] sub
    have "updateActions_loop isMacintosh rest (target @ [?a]) topLevelTitle
            = (target @ [?a]) @ updateActions_loop isMacintosh rest [] ''''"
      by simp
    with True sub show ?thesis
      using updateActions_loop_target [of isMacintosh rest "[?a]" "''''"]
      by (simp add: Let_def)
  next
    case False
    with 3(3) [OF refl] sub
    have "updateActions_loop isMacintosh rest target topLevelTitle
            = target @ updateActions_loop isMacintosh rest [] ''''"
      by simp
    with False sub show ?thesis by (simp add: Let_def)
  qed
next
  case (4 isMacintosh i l e c t k rest target topLevelTitle)
  let ?a = "Action i (mnemonicMenuLabel isMacintosh l False) '''' e k t c"
  from 4 show ?case
    using updateActions_loop_target [of isMacintosh rest "[?a]" "''''"]
    by simp
qed

lemma updateMenu_loop_calls:
  "menubar this = Some calls \<Longrightarrow>
   updateMenu_loop menu firstTime its this
     = this\<lparr>menubar := Some (calls @ map (\<lambda>item.
         (if firstTime then MenuBar_push else MenuBar_updateMenu) (root_entry menu item)) its)\<rparr>"
proof (induction its arbitrary: this calls)
  case Nil
  then show ?case by simp
next
  case (Cons item its)
  let ?entry = "(if firstTime then MenuBar_push else MenuBar_updateMenu) (root_entry menu item)"
  have "menubar (this\<lparr>menubar := Some (calls @ [?entry])\<rparr>) = Some (calls @ [?entry])" by simp
  from Cons.IH [OF this] Cons.prems show ?case
    by (cases firstTime) (simp_all add: Let_def root_entry_def
        updateActions_ignores_target_and_title(1) [of False menu "[]" "MenuItem_label item"])
qed

lemma updateMenu_loop_no_menubar:
  "menubar this = None \<Longrightarrow> updateMenu_loop menu firstTime its this = this"
  by (induction its) simp_all

text \<open>
  Claim C9. On an OS other than Macintosh, \<open>updateMenu\<close> with a menu hands the menu
  bar one entry per top-level item, in order, by \<open>push\<close> on a fresh menu bar the
  first time and by \<open>updateMenu\<close> on the existing one otherwise. The action list of
  every entry is the result of \<open>updateActions\<close> on the whole root menu, which does
  not depend on the item, so all entries carry the same action list; only the label
  is the item's.
\<close>

theorem updateMenu_entries_from_root_menu:
  "updateMenu False this (Some menu) True
     = Inr (this\<lparr>menubar := Some (map (\<lambda>item. MenuBar_push (root_entry menu item)) (items menu)),
               options_menu := Some menu\<rparr>)
   \<and> updateMenu False this (Some menu) False
     = Inr (this\<lparr>menubar := map_option (\<lambda>calls. calls @ [MenuBar_dispose, MenuBar_update]
                     @ map (\<lambda>item. MenuBar_updateMenu (root_entry menu item)) (items menu))
                   (menubar this),
               options_menu := Some menu\<rparr>)
   \<and> actions (root_entry menu item) = updateActions False menu [] ''''
   \<and> actions (root_entry menu item) = actions (root_entry menu item')
   \<and> updateActions False menu [] (MenuItem_label item)
       = updateActions False menu [] (MenuItem_label item')"
proof -
  have first: "updateMenu False this (Some menu) True
     = Inr (this\<lparr>menubar := Some (map (\<lambda>item. MenuBar_push (root_entry menu item)) (items menu)),
               options_menu := Some menu\<rparr>)"
  proof -
    let ?this3 = "(case menubar this of
                     Some calls \<Rightarrow> this\<lparr>menubar := Some (calls @ [MenuBar_dispose])\<rparr>
                   | None \<Rightarrow> this)\<lparr>options_menu := Some menu, menubar := Some []\<rparr>"
    have "menubar ?this3 = Some []" by simp
    from updateMenu_loop_calls [OF this, of menu True "items menu"]
    show ?thesis by (cases "menubar this") (simp_all add: updateMenu_def)
  qed
  have later: "updateMenu False this (Some menu) False
     = Inr (this\<lparr>menubar := map_option (\<lambda>calls. calls @ [MenuBar_dispose, MenuBar_update]
                     @ map (\<lambda>item. MenuBar_updateMenu (root_entry menu item)) (items menu))
                   (menubar this),
               options_menu := Some menu\<rparr>)"
  proof (cases "menubar this")
    case None
    then show ?thesis by (simp add: updateMenu_def updateMenu_loop_no_menubar)
  next
    case (Some calls)
    let ?this3 = "this\<lparr>menubar := Some (calls @ [MenuBar_dispose]), options_menu := Some menu,
                     menubar := Some (calls @ [MenuBar_dispose, MenuBar_update])\<rparr>"
    have "menubar ?this3 = Some (calls @ [MenuBar_dispose, MenuBar_update])" by simp
    from updateMenu_loop_calls [OF this, of menu False "items menu"] Some
    show ?thesis by (simp add: updateMenu_def)
  qed
  have "updateActions False menu [] (MenuItem_label item)
      = updateActions False menu [] (MenuItem_label item')"
    using updateActions_ignores_target_and_title(1) [of False menu "[]" "MenuItem_label item"]
      updateActions_ignores_target_and_title(1) [of False menu "[]" "MenuItem_label item'"]
    by simp
  with first later show ?thesis by (simp add: root_entry_def)
qed

text \<open>
  A menu with the top-level items \<open>File\<close> (\<open>New\<close>, \<open>Open\<close>, \<open>Exit\<close>) and \<open>Edit\<close>
  (\<open>Undo\<close>, \<open>Redo\<close>), shown for the first time on a title bar without a menu bar:
  the entries pushed for \<open>File\<close> and for \<open>Edit\<close> both hold the list built from the
  root menu, the single submenu action \<open>File\<close> with \<open>New\<close> and \<open>Open\<close>.
\<close>

theorem updateMenu_entries_from_root_menu_witness:
  "updateMenu False \<lparr>menubar = None, options_menu = None\<rparr>
     (Some (Menu
       [MenuItem ''f'' ''File'' True False '''' 0
          (Some (Menu [MenuItem ''n'' ''New'' True False '''' 1 None,
                       MenuItem ''o'' ''Open'' True False '''' 2 None,
                       MenuItem ''x'' ''Exit'' True False '''' 3 None])),
        MenuItem ''e'' ''Edit'' True False '''' 0
          (Some (Menu [MenuItem ''u'' ''Undo'' True False '''' 4 None,
                       MenuItem ''r'' ''Redo'' True False '''' 5 None]))])) True
   = Inr \<lparr>menubar = Some
       [MenuBar_push \<lparr>actions = [SubmenuAction '''' ''File''
            [Action ''n'' ''New'' '''' True 1 '''' False,
             Action ''o'' ''Open'' '''' True 2 '''' False]],
          label = ''File''\<rparr>,
        MenuBar_push \<lparr>actions = [SubmenuAction '''' ''File''
            [Action ''n'' ''New'' '''' True 1 '''' False,
             Action ''o'' ''Open'' '''' True 2 '''' False]],
          label = ''Edit''\<rparr>],
      options_menu = Some (Menu
       [MenuItem ''f'' ''File'' True False '''' 0
          (Some (Menu [MenuItem ''n'' ''New'' True False '''' 1 None,
                       MenuItem ''o'' ''Open'' True False '''' 2 None,
                       MenuItem ''x'' ''Exit'' True False '''' 3 None])),
        MenuItem ''e'' ''Edit'' True False '''' 0
          (Some (Menu [MenuItem ''u'' ''Undo'' True False '''' 4 None,
                       MenuItem ''r'' ''Redo'' True False '''' 5 None]))])\<rparr>"
  using updateMenu_entries_from_root_menu
    [of "\<lparr>menubar = None, options_menu = None\<rparr>"
        "Menu
       [MenuItem ''f'' ''File'' True False '''' 0
          (Some (Menu [MenuItem ''n'' ''New'' True False '''' 1 None,
                       MenuItem ''o'' ''Open'' True False '''' 2 None,
                       MenuItem ''x'' ''Exit'' True False '''' 3 None])),
        MenuItem ''e'' ''Edit'' True False '''' 0
          (Some (Menu [MenuItem ''u'' ''Undo'' True False '''' 4 None,
                       MenuItem ''r'' ''Redo'' True False '''' 5 None]))]"
        "MenuItem ''f'' ''File'' True False '''' 0 None"
        "MenuItem ''f'' ''File'' True False '''' 0 None"]
  by (simp add: root_entry_def nonMac_no_amp)

end
